theory Spec2Isabelle
  imports Complex_Main "HOL-Library.AList" "HOL-Library.Product_Lexorder" "HOL-Library.Log_Nat"
begin

section \<open>Errors raised by the notebook's library calls\<close>

text \<open>
  The notebook has no error handling of its own: a failing step propagates the fault of
  the library call. Each fault is a value of \<open>error\<close>; a step that can fail returns
  \<open>error + 'a\<close> with \<open>Inl\<close> for the fault.
\<close>

datatype error = IndexError | ValueError | KeyError | TypeError | AttributeError

section \<open>Summer-day counting (cell 33)\<close>

text \<open>
  \<^verbatim>\<open>no_summer_days_model = tasmax_year_place_xr[tasmax_year_place_xr > 25].size\<close>

  The comparison builds a boolean mask, the mask selects the elements where it is True,
  and \<open>size\<close> counts them. Temperatures are modelled as real numbers (no rounding, no NaN).
  The source fixes the threshold to the literal 25; \<open>no_summer_days_at\<close> is the same
  computation with the threshold as a parameter.
\<close>

definition gt_mask :: "real list \<Rightarrow> real \<Rightarrow> bool list" where
  "gt_mask xs T = map (\<lambda>v. v > T) xs"

fun bool_index :: "'a list \<Rightarrow> bool list \<Rightarrow> 'a list" where
  "bool_index (x # xs) (b # bs) = (if b then x # bool_index xs bs else bool_index xs bs)"
| "bool_index _ _ = []"

definition no_summer_days_at :: "real \<Rightarrow> real list \<Rightarrow> nat" where
  "no_summer_days_at T xs = length (bool_index xs (gt_mask xs T))"

definition no_summer_days_model :: "real list \<Rightarrow> nat" where
  "no_summer_days_model xs = no_summer_days_at 25 xs"

section \<open>Catalog dataframes (cells 19 and 20)\<close>

text \<open>
  A dataframe is a sequence of named columns, in column order; a column holds strings or
  integers. Dataframes are objects: a store maps an address (an index) to the dataframe
  living there, \<open>copy\<close> allocates a new object, and the in-place operations of the
  notebook (column assignment, \<open>drop(..., inplace = True)\<close>) update the object at an
  address.
\<close>

datatype column = StrCol "string list" | IntCol "int list"

datatype cell = StrCell string | IntCell int

type_synonym dataframe = "(string \<times> column) list"

type_synonym addr = nat

type_synonym store = "dataframe list"

definition getitem :: "dataframe \<Rightarrow> string \<Rightarrow> error + column" where
  "getitem df name = (case map_of df name of None \<Rightarrow> Inl KeyError | Some c \<Rightarrow> Inr c)"

text \<open>\<open>df[name] = c\<close> replaces the column of that name, or appends a new last column.\<close>

definition setitem :: "dataframe \<Rightarrow> string \<Rightarrow> column \<Rightarrow> dataframe" where
  "setitem df name c = AList.update name c df"

definition py_slice :: "nat \<Rightarrow> nat \<Rightarrow> 'a list \<Rightarrow> 'a list" where
  "py_slice i j xs = take (j - i) (drop i xs)"

text \<open>\<open>col.str[i:j]\<close>: the slice of every string; the accessor exists on string columns only.\<close>

definition str_slice :: "nat \<Rightarrow> nat \<Rightarrow> column \<Rightarrow> error + column" where
  "str_slice i j c =
     (case c of StrCol ss \<Rightarrow> Inr (StrCol (map (py_slice i j) ss))
              | IntCol _ \<Rightarrow> Inl AttributeError)"

text \<open>
  \<open>col.astype(int)\<close> converts every string with Python's \<open>int\<close>, which is a parameter
  \<open>to_int\<close> of the model (\<open>None\<close> where \<open>int\<close> raises ValueError).
\<close>

definition astype_int :: "(string \<Rightarrow> int option) \<Rightarrow> column \<Rightarrow> error + column" where
  "astype_int to_int c =
     (case c of IntCol ns \<Rightarrow> Inr (IntCol ns)
              | StrCol ss \<Rightarrow>
                  (case those (map to_int ss) of None \<Rightarrow> Inl ValueError
                                               | Some ns \<Rightarrow> Inr (IntCol ns)))"

text \<open>An instance of \<open>to_int\<close>: plain decimal digit strings, as catalog time ranges have.\<close>

definition digit_of :: "char \<Rightarrow> int option" where
  "digit_of c =
     (let n = (of_char c :: nat) in if 48 \<le> n \<and> n \<le> 57 then Some (int n - 48) else None)"

fun digits_acc :: "int \<Rightarrow> string \<Rightarrow> int option" where
  "digits_acc n [] = Some n"
| "digits_acc n (c # cs) =
     (case digit_of c of None \<Rightarrow> None | Some d \<Rightarrow> digits_acc (10 * n + d) cs)"

definition int_of_digits :: "string \<Rightarrow> int option" where
  "int_of_digits s = (if s = [] then None else digits_acc 0 s)"

subsection \<open>Cell 19: the copy of the query result, with start and end year\<close>

text \<open>
  \<^verbatim>\<open>
  query_result_df = cat.df.copy()
  query_result_df["start_year"] = query_result_df["time_range"].str[0:4].astype(int)
  query_result_df["end_year"] = query_result_df["time_range"].str[9:13].astype(int)
  query_result_df.drop(columns=["time_range"], inplace = True)
  \<close>
  Every statement either raises and leaves the store as it was, or updates the object at
  the address of the copy. The cell returns the store it leaves behind, also when a
  statement raises.
\<close>

definition df_copy :: "store \<Rightarrow> addr \<Rightarrow> store \<times> addr" where
  "df_copy st a = (st @ [st ! a], length st)"

definition add_year_column ::
  "(string \<Rightarrow> int option) \<Rightarrow> addr \<Rightarrow> string \<Rightarrow> nat \<Rightarrow> nat \<Rightarrow> store \<Rightarrow> error + store" where
  "add_year_column to_int q name i j st =
     (case getitem (st ! q) ''time_range'' of Inl e \<Rightarrow> Inl e
      | Inr tr \<Rightarrow>
     (case str_slice i j tr of Inl e \<Rightarrow> Inl e
      | Inr s \<Rightarrow>
     (case astype_int to_int s of Inl e \<Rightarrow> Inl e
      | Inr ys \<Rightarrow> Inr (st[q := setitem (st ! q) name ys]))))"

definition drop_inplace :: "addr \<Rightarrow> string \<Rightarrow> store \<Rightarrow> error + store" where
  "drop_inplace q name st =
     (case getitem (st ! q) name of Inl e \<Rightarrow> Inl e
      | Inr _ \<Rightarrow> Inr (st[q := AList.delete name (st ! q)]))"

definition query_result_df ::
  "(string \<Rightarrow> int option) \<Rightarrow> store \<Rightarrow> addr \<Rightarrow> store \<times> (error + addr)" where
  "query_result_df to_int st cat_df =
     (let (st1, q) = df_copy st cat_df in
      case add_year_column to_int q ''start_year'' 0 4 st1 of Inl e \<Rightarrow> (st1, Inl e)
      | Inr st2 \<Rightarrow>
     (case add_year_column to_int q ''end_year'' 9 13 st2 of Inl e \<Rightarrow> (st2, Inl e)
      | Inr st3 \<Rightarrow>
     (case drop_inplace q ''time_range'' st3 of Inl e \<Rightarrow> (st3, Inl e)
      | Inr st4 \<Rightarrow> (st4, Inr q))))"

subsection \<open>Cell 20: the file that contains the selected year\<close>

text \<open>
  \<^verbatim>\<open>
  selected_file = query_result_df[(year_box.value >= query_result_df["start_year"]) & (
                     year_box.value <= query_result_df["end_year"])]
  selected_path = selected_file["zarr_path"].values[0]
  \<close>
  The two comparisons give boolean masks over the rows, \<open>&\<close> combines them row by row,
  and indexing with the mask keeps, in every column, the rows where it is True.
  \<open>values[0]\<close> raises IndexError on a column without rows.
\<close>

definition year_ge :: "int \<Rightarrow> column \<Rightarrow> error + bool list" where
  "year_ge Y c = (case c of IntCol ns \<Rightarrow> Inr (map (\<lambda>n. Y \<ge> n) ns) | StrCol _ \<Rightarrow> Inl TypeError)"

definition year_le :: "int \<Rightarrow> column \<Rightarrow> error + bool list" where
  "year_le Y c = (case c of IntCol ns \<Rightarrow> Inr (map (\<lambda>n. Y \<le> n) ns) | StrCol _ \<Rightarrow> Inl TypeError)"

definition mask_and :: "bool list \<Rightarrow> bool list \<Rightarrow> bool list" where
  "mask_and m1 m2 = map2 (\<and>) m1 m2"

definition col_index :: "bool list \<Rightarrow> column \<Rightarrow> column" where
  "col_index m c = (case c of StrCol ss \<Rightarrow> StrCol (bool_index ss m)
                            | IntCol ns \<Rightarrow> IntCol (bool_index ns m))"

definition select_rows :: "dataframe \<Rightarrow> bool list \<Rightarrow> dataframe" where
  "select_rows df m = map (\<lambda>(name, c). (name, col_index m c)) df"

definition selected_file :: "dataframe \<Rightarrow> int \<Rightarrow> error + dataframe" where
  "selected_file df Y =
     (case getitem df ''start_year'' of Inl e \<Rightarrow> Inl e
      | Inr sc \<Rightarrow>
     (case year_ge Y sc of Inl e \<Rightarrow> Inl e
      | Inr m1 \<Rightarrow>
     (case getitem df ''end_year'' of Inl e \<Rightarrow> Inl e
      | Inr ec \<Rightarrow>
     (case year_le Y ec of Inl e \<Rightarrow> Inl e
      | Inr m2 \<Rightarrow> Inr (select_rows df (mask_and m1 m2))))))"

definition values0 :: "column \<Rightarrow> error + cell" where
  "values0 c =
     (case c of StrCol [] \<Rightarrow> Inl IndexError | StrCol (s # _) \<Rightarrow> Inr (StrCell s)
              | IntCol [] \<Rightarrow> Inl IndexError | IntCol (n # _) \<Rightarrow> Inr (IntCell n))"

definition selected_path :: "dataframe \<Rightarrow> int \<Rightarrow> error + cell" where
  "selected_path df Y =
     (case selected_file df Y of Inl e \<Rightarrow> Inl e
      | Inr sf \<Rightarrow>
     (case getitem sf ''zarr_path'' of Inl e \<Rightarrow> Inl e
      | Inr zc \<Rightarrow> values0 zc))"

text \<open>
  The rows of a query result, as far as cell 20 reads them: one record per file, with the
  years it covers and where it is stored.
\<close>

record file_record =
  start_year :: int
  end_year :: int
  zarr_path :: string

definition covers :: "int \<Rightarrow> file_record \<Rightarrow> bool" where
  "covers Y r = (start_year r \<le> Y \<and> Y \<le> end_year r)"

text \<open>A dataframe holds the records \<open>rs\<close> when its three columns list their fields, row by row.\<close>

definition holds_records :: "dataframe \<Rightarrow> file_record list \<Rightarrow> bool" where
  "holds_records df rs =
     (map_of df ''start_year'' = Some (IntCol (map start_year rs))
      \<and> map_of df ''end_year'' = Some (IntCol (map end_year rs))
      \<and> map_of df ''zarr_path'' = Some (StrCol (map zarr_path rs)))"

section \<open>Floating-point rounding\<close>

text \<open>
  The arrays of the notebook hold binary floating-point numbers, and an arithmetic
  operation on them gives the exact result rounded to the format. In the model of a
  computation that depends on it, the rounding is a parameter \<open>rnd\<close> of type
  \<open>real \<Rightarrow> real\<close>. Its instance \<open>fl_round p\<close> rounds to the nearest number with \<open>p\<close>
  significant bits, ties to the even significand, as IEEE 754 arithmetic does; the range of
  the exponent is not limited, so it is the rounding of the format for the magnitudes
  between its smallest normal and its largest number. \<open>float64\<close> is the format of a
  Python float and of a double-precision array.
\<close>

definition round_half_even :: "real \<Rightarrow> int" where
  "round_half_even x =
     (let f = \<lfloor>x\<rfloor>; d = x - of_int f
      in if d < 1 / 2 then f else if 1 / 2 < d then f + 1 else if even f then f else f + 1)"

definition pow2 :: "int \<Rightarrow> real" where
  "pow2 e = (if 0 \<le> e then 2 ^ nat e else 1 / 2 ^ nat (- e))"

text \<open>The exponent \<open>e\<close> of a positive number \<open>x\<close>: \<open>pow2 e \<le> x < pow2 (e + 1)\<close>.\<close>

definition binade :: "real \<Rightarrow> int" where
  "binade x = (if 1 \<le> x then bitlen \<lfloor>x\<rfloor> - 1 else - bitlen (\<lceil>1 / x\<rceil> - 1))"

definition fl_round :: "nat \<Rightarrow> real \<Rightarrow> real" where
  "fl_round p x =
     (if x = 0 then 0
      else let q = pow2 (binade \<bar>x\<bar> + 1 - int p)
           in of_int (round_half_even (x / q)) * q)"

definition float64 :: "real \<Rightarrow> real" where
  "float64 x = fl_round 53 x"

section \<open>Nearest grid cell (cell 26)\<close>

text \<open>
  \<^verbatim>\<open>
  abslat = np.abs(tasmax_year_xr["lat"] - location.latitude)
  abslon = np.abs(tasmax_year_xr["lon"] - location.longitude)
  c = np.maximum(abslon, abslat)
  ([xloc], [yloc]) = np.where(c == np.min(c))
  \<close>
  \<open>abslat\<close> and \<open>abslon\<close> are one-dimensional arrays over different dimensions, so
  \<open>np.maximum\<close> broadcasts them to a two-dimensional array whose first axis is the
  longitude and whose second axis is the latitude. \<open>np.min\<close> raises ValueError on an
  array without elements. \<open>np.where\<close> gives the indices of the True entries in row-major
  order, as one array per axis. The assignment unpacks each of the two arrays into a single
  name and raises ValueError unless each has exactly one element. In \<open>nearest_cell\<close> the
  coordinates are real numbers and the arithmetic is exact; \<open>nearest_cell_fl\<close> below is the
  same computation with the rounding of the two subtractions.
\<close>

definition abs_diff :: "real list \<Rightarrow> real \<Rightarrow> real list" where
  "abs_diff cs t = map (\<lambda>v. \<bar>v - t\<bar>) cs"

definition np_maximum :: "real list \<Rightarrow> real list \<Rightarrow> real list list" where
  "np_maximum a b = map (\<lambda>x. map (\<lambda>y. max x y) b) a"

definition np_min :: "real list list \<Rightarrow> error + real" where
  "np_min c = (case concat c of [] \<Rightarrow> Inl ValueError | v # vs \<Rightarrow> Inr (fold min vs v))"

definition where_hits :: "real list list \<Rightarrow> real \<Rightarrow> (nat \<times> nat) list" where
  "where_hits c m =
     concat (map (\<lambda>i. map (\<lambda>j. (i, j)) (filter (\<lambda>j. c ! i ! j = m) [0..<length (c ! i)]))
                 [0..<length c])"

definition np_where_eq :: "real list list \<Rightarrow> real \<Rightarrow> nat list \<times> nat list" where
  "np_where_eq c m = (map fst (where_hits c m), map snd (where_hits c m))"

definition nearest_cell :: "real list \<Rightarrow> real list \<Rightarrow> real \<Rightarrow> real \<Rightarrow> error + nat \<times> nat" where
  "nearest_cell lat lon latitude longitude =
     (let abslat = abs_diff lat latitude;
          abslon = abs_diff lon longitude;
          c = np_maximum abslon abslat
      in case np_min c of Inl e \<Rightarrow> Inl e
         | Inr m \<Rightarrow>
             (case np_where_eq c m of
                ([xloc], [yloc]) \<Rightarrow> Inr (xloc, yloc)
              | _ \<Rightarrow> Inl ValueError))"

text \<open>
  The cost of the cell in row \<open>i\<close> of the latitudes and column \<open>j\<close> of the longitudes, as
  the specification writes it: the larger of the two absolute coordinate differences.
\<close>

definition cost :: "real list \<Rightarrow> real list \<Rightarrow> real \<Rightarrow> real \<Rightarrow> nat \<Rightarrow> nat \<Rightarrow> real" where
  "cost L M targetLat targetLon i j = max \<bar>L ! i - targetLat\<bar> \<bar>M ! j - targetLon\<bar>"

subsection \<open>The same cell in floating-point arithmetic\<close>

text \<open>
  The coordinates and the target are floating-point numbers, and each of the two
  subtractions rounds its result; the absolute value, the maximum, the minimum and the
  comparison with the minimum are exact. \<open>nearest_cell_fl rnd\<close> is cell 26 with the rounding
  \<open>rnd\<close> of the subtractions, and \<open>cost_fl rnd\<close> is the cost that it computes for a cell.
  With the identity for \<open>rnd\<close> it is \<open>nearest_cell\<close>.
\<close>

definition abs_diff_fl :: "(real \<Rightarrow> real) \<Rightarrow> real list \<Rightarrow> real \<Rightarrow> real list" where
  "abs_diff_fl rnd cs t = map (\<lambda>v. \<bar>rnd (v - t)\<bar>) cs"

definition nearest_cell_fl ::
  "(real \<Rightarrow> real) \<Rightarrow> real list \<Rightarrow> real list \<Rightarrow> real \<Rightarrow> real \<Rightarrow> error + nat \<times> nat" where
  "nearest_cell_fl rnd lat lon latitude longitude =
     (let abslat = abs_diff_fl rnd lat latitude;
          abslon = abs_diff_fl rnd lon longitude;
          c = np_maximum abslon abslat
      in case np_min c of Inl e \<Rightarrow> Inl e
         | Inr m \<Rightarrow>
             (case np_where_eq c m of
                ([xloc], [yloc]) \<Rightarrow> Inr (xloc, yloc)
              | _ \<Rightarrow> Inl ValueError))"

definition cost_fl ::
  "(real \<Rightarrow> real) \<Rightarrow> real list \<Rightarrow> real list \<Rightarrow> real \<Rightarrow> real \<Rightarrow> nat \<Rightarrow> nat \<Rightarrow> real" where
  "cost_fl rnd L M targetLat targetLon i j =
     max \<bar>rnd (L ! i - targetLat)\<bar> \<bar>rnd (M ! j - targetLon)\<bar>"

section \<open>The loaded array (cells 22, 27 and 31)\<close>

text \<open>
  The data array has the dimensions (time, lat, lon), with a coordinate sequence for each:
  \<open>vals arr ! t ! y ! x\<close> is the value at time step \<open>t\<close>, latitude index \<open>y\<close> and
  longitude index \<open>x\<close>. A timestamp is (year, month, day, hour, minute, second,
  nanosecond), ordered lexicographically.
\<close>

type_synonym timestamp = "int \<times> nat \<times> nat \<times> nat \<times> nat \<times> nat \<times> nat"

record data_array =
  time :: "timestamp list"
  lat :: "real list"
  lon :: "real list"
  vals :: "real list list list"

subsection \<open>Cell 22: the slice of the selected year\<close>

text \<open>
  \<^verbatim>\<open>
  time_start = str(year_box.value) + "-01-01T12:00:00.000000000"
  time_end = str(year_box.value) + "-12-31T12:00:00.000000000"
  tasmax_year_xr = tasmax_xr.loc[time_start:time_end, :, :]
  \<close>
  \<open>time_start\<close> and \<open>time_end\<close> are the timestamps that the two strings denote. A label
  slice on an increasing time index runs from the first position whose label is not below
  the lower bound to the last position whose label is not above the upper bound: the two
  positions are found by searching the index from the left and from the right, and both
  are counted here by a scan from the front. The model is the slice of an increasing
  index, as the time axis of a model output file is; other indexes are outside of it.
\<close>

definition time_start :: "int \<Rightarrow> timestamp" where
  "time_start year = (year, 1, 1, 12, 0, 0, 0)"

definition time_end :: "int \<Rightarrow> timestamp" where
  "time_end year = (year, 12, 31, 12, 0, 0, 0)"

definition searchsorted_left :: "'a::linorder list \<Rightarrow> 'a \<Rightarrow> nat" where
  "searchsorted_left ts a = length (takeWhile (\<lambda>t. t < a) ts)"

definition searchsorted_right :: "'a::linorder list \<Rightarrow> 'a \<Rightarrow> nat" where
  "searchsorted_right ts b = length (takeWhile (\<lambda>t. t \<le> b) ts)"

definition loc_time_slice :: "data_array \<Rightarrow> timestamp \<Rightarrow> timestamp \<Rightarrow> data_array" where
  "loc_time_slice arr a b =
     (let i = searchsorted_left (time arr) a;
          j = searchsorted_right (time arr) b
      in arr\<lparr>time := py_slice i j (time arr), vals := py_slice i j (vals arr)\<rparr>)"

definition tasmax_year_xr :: "data_array \<Rightarrow> int \<Rightarrow> data_array" where
  "tasmax_year_xr tasmax_xr year = loc_time_slice tasmax_xr (time_start year) (time_end year)"

subsection \<open>Positional indexing\<close>

text \<open>
  An integer index into an axis of size \<open>n\<close>: an index from \<open>0\<close> to \<open>n - 1\<close> is taken as
  it is, an index from \<open>-n\<close> to \<open>-1\<close> counts from the end, any other raises IndexError.
\<close>

definition py_index :: "nat \<Rightarrow> int \<Rightarrow> error + nat" where
  "py_index n k =
     (if 0 \<le> k \<and> k < int n then Inr (nat k)
      else if - int n \<le> k \<and> k < 0 then Inr (nat (int n + k))
      else Inl IndexError)"

definition coord_at :: "real list \<Rightarrow> int \<Rightarrow> error + real" where
  "coord_at cs k = (case py_index (length cs) k of Inl e \<Rightarrow> Inl e | Inr n \<Rightarrow> Inr (cs ! n))"

definition bind_err :: "error + 'a \<Rightarrow> ('a \<Rightarrow> error + 'b) \<Rightarrow> error + 'b" where
  "bind_err r f = (case r of Inl e \<Rightarrow> Inl e | Inr v \<Rightarrow> f v)"

subsection \<open>Cell 31: the series of one grid cell, in degrees Celsius\<close>

text \<open>
  \<^verbatim>\<open>tasmax_year_place_xr = tasmax_year_xr[:, yloc, xloc] - 273.15\<close>

  The result keeps the time coordinate: it is the sequence of (timestamp, value) pairs.
  The subtraction is the one of the array's floating-point format, with the rounding
  \<open>rnd\<close>: the constant is the number of the format nearest to 273.15, and each difference
  is rounded.
\<close>

definition tasmax_year_place_xr ::
  "(real \<Rightarrow> real) \<Rightarrow> data_array \<Rightarrow> int \<Rightarrow> int \<Rightarrow> error + (timestamp \<times> real) list" where
  "tasmax_year_place_xr rnd arr yloc xloc =
     bind_err (py_index (length (lat arr)) yloc) (\<lambda>y.
     bind_err (py_index (length (lon arr)) xloc) (\<lambda>x.
       Inr (zip (time arr) (map (\<lambda>g. rnd (g ! y ! x - rnd 273.15)) (vals arr)))))"

subsection \<open>Cell 27: the rectangle of the model grid cell\<close>

text \<open>
  \<^verbatim>\<open>
  rect_lat1_model = (tasmax_year_xr["lat"][yloc - 1] + tasmax_year_xr["lat"][yloc]) / 2
  rect_lon1_model = (tasmax_year_xr["lon"][xloc - 1] + tasmax_year_xr["lon"][xloc]) / 2
  rect_lat2_model = (tasmax_year_xr["lat"][yloc + 1] + tasmax_year_xr["lat"][yloc]) / 2
  rect_lon2_model = (tasmax_year_xr["lon"][xloc + 1] + tasmax_year_xr["lon"][xloc]) / 2
  \<close>
  The four statements run in this order; the result is the pair of corners
  \<open>((rect_lat1_model, rect_lon1_model), (rect_lat2_model, rect_lon2_model))\<close> that the
  rectangle is drawn with.
\<close>

definition rect_mid :: "real list \<Rightarrow> int \<Rightarrow> int \<Rightarrow> error + real" where
  "rect_mid cs k1 k2 =
     bind_err (coord_at cs k1) (\<lambda>a. bind_err (coord_at cs k2) (\<lambda>b. Inr ((a + b) / 2)))"

definition rect_model :: "real list \<Rightarrow> real list \<Rightarrow> int \<Rightarrow> int \<Rightarrow> error + (real \<times> real) \<times> (real \<times> real)" where
  "rect_model lats lons yloc xloc =
     bind_err (rect_mid lats (yloc - 1) yloc) (\<lambda>rect_lat1_model.
     bind_err (rect_mid lons (xloc - 1) xloc) (\<lambda>rect_lon1_model.
     bind_err (rect_mid lats (yloc + 1) yloc) (\<lambda>rect_lat2_model.
     bind_err (rect_mid lons (xloc + 1) xloc) (\<lambda>rect_lon2_model.
       Inr ((rect_lat1_model, rect_lon1_model), (rect_lat2_model, rect_lon2_model))))))"

subsection \<open>An example array\<close>

text \<open>
  Four daily samples around the year 2015 on a grid of two latitudes and two longitudes;
  the values are in Kelvin.
\<close>

definition example_tasmax_xr :: data_array where
  "example_tasmax_xr =
     \<lparr>time = [(2014, 12, 31, 12, 0, 0, 0), (2015, 1, 1, 12, 0, 0, 0),
              (2015, 12, 31, 12, 0, 0, 0), (2016, 1, 1, 12, 0, 0, 0)],
      lat = [52, 53], lon = [9, 10],
      vals = [[[280, 281], [282, 283]], [[290, 291], [292, 293.25]],
              [[300, 301], [302, 303]], [[270, 271], [272, 273]]]\<rparr>"

section \<open>Properties of summer-day counting\<close>

lemma bool_index_mask: "bool_index xs (map p xs) = filter p xs"
  by (induction xs) simp_all

lemma no_summer_days_at_filter: "no_summer_days_at T xs = length (filter (\<lambda>v. v > T) xs)"
  by (simp add: no_summer_days_at_def gt_mask_def bool_index_mask)

text \<open>
  C1: the summer-day count is the number of samples strictly greater than the threshold;
  a sample equal to the threshold does not change the count; the count of the empty series
  is 0; the series 20.0, 25.0, 25.1, 30.0 has 2 summer days at the threshold 25.
\<close>

theorem summer_days_count_strict:
  "no_summer_days_at T xs = card {i. i < length xs \<and> xs ! i > T}
   \<and> no_summer_days_at T (xs @ T # ys) = no_summer_days_at T (xs @ ys)
   \<and> no_summer_days_at T [] = 0
   \<and> no_summer_days_model [20.0, 25.0, 25.1, 30.0] = 2"
  by (simp add: no_summer_days_at_filter no_summer_days_model_def length_filter_conv_card)

text \<open>
  C7: the notebook's text defines a summer day as a day whose maximum is at least 25.0
  degrees; the computation is strict, so a day of exactly 25.0 degrees is left out.
\<close>

theorem summer_day_at_threshold_not_counted:
  "no_summer_days_model [25.0] = 0 \<and> no_summer_days_model [24.0, 25.0, 26.0] = 1"
  by (simp add: no_summer_days_at_filter no_summer_days_model_def)

text \<open>
  C8: for a fixed series the count does not increase when the threshold increases.
\<close>

theorem summer_days_antimono:
  "T1 \<le> T2 \<Longrightarrow> no_summer_days_at T2 xs \<le> no_summer_days_at T1 xs"
proof (induction xs)
  case Nil
  then show ?case by (simp add: no_summer_days_at_filter)
next
  case (Cons x xs)
  then show ?case by (auto simp: no_summer_days_at_filter)
qed

theorem summer_days_antimono_witness:
  "(20::real) \<le> 25 \<and> no_summer_days_at 25 [20.0, 25.0, 25.1, 30.0] = 2
   \<and> no_summer_days_at 20 [20.0, 25.0, 25.1, 30.0] = 3
   \<and> no_summer_days_at 25 [20.0, 25.0, 25.1, 30.0] \<le> no_summer_days_at 20 [20.0, 25.0, 25.1, 30.0]"
  using summer_days_antimono [of 20 25 "[20.0, 25.0, 25.1, 30.0]"]
  by (simp add: no_summer_days_at_filter)

section \<open>Properties of dataset selection\<close>

lemma bool_index_map_filter: "bool_index (map f rs) (map p rs) = map f (filter p rs)"
  by (induction rs) simp_all

lemma mask_and_map: "mask_and (map p rs) (map q rs) = map (\<lambda>r. p r \<and> q r) rs"
  by (induction rs) (simp_all add: mask_and_def)

lemma map_of_select_rows:
  "map_of (select_rows df m) name = map_option (col_index m) (map_of df name)"
  by (induction df) (auto simp: select_rows_def)

lemma selected_file_records:
  assumes "holds_records df rs"
  shows "\<exists>sf. selected_file df Y = Inr sf \<and> holds_records sf (filter (covers Y) rs)"
proof -
  have m: "mask_and (map (\<lambda>n. Y \<ge> n) (map start_year rs)) (map (\<lambda>n. Y \<le> n) (map end_year rs))
           = map (covers Y) rs"
    by (induction rs) (simp_all add: mask_and_def covers_def)
  have sf: "selected_file df Y = Inr (select_rows df (map (covers Y) rs))"
    using assms m
    by (simp add: selected_file_def holds_records_def getitem_def year_ge_def year_le_def)
  have "holds_records (select_rows df (map (covers Y) rs)) (filter (covers Y) rs)"
    using assms
    by (simp add: holds_records_def map_of_select_rows col_index_def bool_index_map_filter)
  with sf show ?thesis by blast
qed

text \<open>
  C2: on a query result holding the records \<open>rs\<close>, the selection for the year \<open>Y\<close> succeeds
  and holds exactly the records of \<open>rs\<close> whose interval contains \<open>Y\<close>, in catalog order, so
  every selected record has \<open>start_year \<le> Y \<le> end_year\<close>. When some record covers \<open>Y\<close>,
  the selected path is the path of the first selected record. When no record covers \<open>Y\<close>,
  the selection is empty and taking its first path raises IndexError.
\<close>

theorem dataset_selection:
  assumes "holds_records df rs"
  shows "\<exists>sf. selected_file df Y = Inr sf \<and> holds_records sf (filter (covers Y) rs)
     \<and> (\<forall>r \<in> set (filter (covers Y) rs). r \<in> set rs \<and> start_year r \<le> Y \<and> Y \<le> end_year r)
     \<and> ((\<exists>r \<in> set rs. covers Y r) \<longrightarrow>
          (\<exists>r rest. filter (covers Y) rs = r # rest
             \<and> selected_path df Y = Inr (StrCell (zarr_path r))))
     \<and> ((\<forall>r \<in> set rs. \<not> covers Y r) \<longrightarrow>
          filter (covers Y) rs = [] \<and> selected_path df Y = Inl IndexError)"
proof -
  from selected_file_records [OF assms, of Y] obtain sf where
    sf: "selected_file df Y = Inr sf" and h: "holds_records sf (filter (covers Y) rs)"
    by blast
  have path: "selected_path df Y = values0 (StrCol (map zarr_path (filter (covers Y) rs)))"
    using sf h by (simp add: selected_path_def holds_records_def getitem_def)
  have only: "\<forall>r \<in> set (filter (covers Y) rs). r \<in> set rs \<and> start_year r \<le> Y \<and> Y \<le> end_year r"
    by (simp add: covers_def)
  have some: "(\<exists>r \<in> set rs. covers Y r) \<longrightarrow>
          (\<exists>r rest. filter (covers Y) rs = r # rest
             \<and> selected_path df Y = Inr (StrCell (zarr_path r)))"
  proof
    assume "\<exists>r \<in> set rs. covers Y r"
    then have "filter (covers Y) rs \<noteq> []" by (simp add: filter_empty_conv)
    then obtain r rest where e: "filter (covers Y) rs = r # rest"
      by (cases "filter (covers Y) rs") auto
    then show "\<exists>r rest. filter (covers Y) rs = r # rest
             \<and> selected_path df Y = Inr (StrCell (zarr_path r))"
      using path by (simp add: values0_def)
  qed
  have none: "(\<forall>r \<in> set rs. \<not> covers Y r) \<longrightarrow>
          filter (covers Y) rs = [] \<and> selected_path df Y = Inl IndexError"
    using path by (auto simp: values0_def filter_empty_conv)
  from sf h only some none show ?thesis by blast
qed

theorem dataset_selection_witness:
  "holds_records
     [(''zarr_path'', StrCol [''a.zarr'', ''b.zarr'']),
      (''start_year'', IntCol [2015, 2020]), (''end_year'', IntCol [2019, 2024])]
     [\<lparr>start_year = 2015, end_year = 2019, zarr_path = ''a.zarr''\<rparr>,
      \<lparr>start_year = 2020, end_year = 2024, zarr_path = ''b.zarr''\<rparr>]
   \<and> selected_path
       [(''zarr_path'', StrCol [''a.zarr'', ''b.zarr'']),
        (''start_year'', IntCol [2015, 2020]), (''end_year'', IntCol [2019, 2024])] 2021
     = Inr (StrCell ''b.zarr'')
   \<and> selected_path
       [(''zarr_path'', StrCol [''a.zarr'', ''b.zarr'']),
        (''start_year'', IntCol [2015, 2020]), (''end_year'', IntCol [2019, 2024])] 2030
     = Inl IndexError"
proof -
  let ?df = "[(''zarr_path'', StrCol [''a.zarr'', ''b.zarr'']),
      (''start_year'', IntCol [2015, 2020]), (''end_year'', IntCol [2019, 2024])]"
  let ?rs = "[\<lparr>start_year = 2015, end_year = 2019, zarr_path = ''a.zarr''\<rparr>,
      \<lparr>start_year = 2020, end_year = 2024, zarr_path = ''b.zarr''\<rparr>]"
  have h: "holds_records ?df ?rs"
    by (simp add: holds_records_def)
  from h dataset_selection [OF h, of 2021] dataset_selection [OF h, of 2030]
  show ?thesis by (auto simp: covers_def)
qed

section \<open>Properties of the copy of the query result\<close>

lemma astype_int_IntCol: "astype_int to_int c = Inr c' \<Longrightarrow> \<exists>ys. c' = IntCol ys"
  by (auto simp: astype_int_def split: column.splits option.splits)

lemma add_year_column_Inr:
  "add_year_column to_int q name i j st = Inr st' \<Longrightarrow>
     \<exists>ys. st' = st[q := setitem (st ! q) name (IntCol ys)]"
  by (auto simp: add_year_column_def split: sum.splits dest: astype_int_IntCol)

lemma drop_inplace_Inr:
  "drop_inplace q name st = Inr st' \<Longrightarrow> st' = st[q := AList.delete name (st ! q)]"
  by (auto simp: drop_inplace_def split: sum.splits)

lemma query_result_df_store:
  "\<exists>st'. fst (query_result_df to_int st cat_df) = (st @ [st ! cat_df])[length st := st']"
  by (auto simp: query_result_df_def df_copy_def split: sum.splits
      dest!: add_year_column_Inr drop_inplace_Inr intro: list_update_id [symmetric])

text \<open>
  C10: cell 19 works on a copy. Whatever the store and wherever the catalog dataframe
  lives in it, the dataframe at that address is the same after the cell as before, also
  when a statement of the cell raises. When the cell succeeds, the dataframe it returns
  is another object, which has no \<open>time_range\<close> column and has the integer columns
  \<open>start_year\<close> and \<open>end_year\<close>.
\<close>

theorem query_result_copy_frame:
  assumes "cat_df < length st"
  shows "fst (query_result_df to_int st cat_df) ! cat_df = st ! cat_df
    \<and> (\<forall>q. snd (query_result_df to_int st cat_df) = Inr q \<longrightarrow>
          q \<noteq> cat_df
          \<and> map_of (fst (query_result_df to_int st cat_df) ! q) ''time_range'' = None
          \<and> (\<exists>ys. map_of (fst (query_result_df to_int st cat_df) ! q) ''start_year'' = Some (IntCol ys))
          \<and> (\<exists>ys. map_of (fst (query_result_df to_int st cat_df) ! q) ''end_year'' = Some (IntCol ys)))"
proof -
  obtain st' where "fst (query_result_df to_int st cat_df) = (st @ [st ! cat_df])[length st := st']"
    using query_result_df_store by blast
  then have frame: "fst (query_result_df to_int st cat_df) ! cat_df = st ! cat_df"
    using assms by (simp add: nth_append)
  have copy: "\<forall>q. snd (query_result_df to_int st cat_df) = Inr q \<longrightarrow>
          q \<noteq> cat_df
          \<and> map_of (fst (query_result_df to_int st cat_df) ! q) ''time_range'' = None
          \<and> (\<exists>ys. map_of (fst (query_result_df to_int st cat_df) ! q) ''start_year'' = Some (IntCol ys))
          \<and> (\<exists>ys. map_of (fst (query_result_df to_int st cat_df) ! q) ''end_year'' = Some (IntCol ys))"
    using assms
    by (auto simp: query_result_df_def df_copy_def setitem_def update_conv' delete_conv'
        split: sum.splits dest!: add_year_column_Inr drop_inplace_Inr)
  from frame copy show ?thesis by blast
qed

theorem query_result_copy_frame_witness:
  "(0::nat) < length [[(''zarr_path'', StrCol [''a.zarr'', ''b.zarr'']),
                      (''time_range'', StrCol [''20150101-20191231'', ''20200101-20241231''])]]
   \<and> query_result_df int_of_digits
       [[(''zarr_path'', StrCol [''a.zarr'', ''b.zarr'']),
         (''time_range'', StrCol [''20150101-20191231'', ''20200101-20241231''])]] 0
     = ([[(''zarr_path'', StrCol [''a.zarr'', ''b.zarr'']),
          (''time_range'', StrCol [''20150101-20191231'', ''20200101-20241231''])],
         [(''zarr_path'', StrCol [''a.zarr'', ''b.zarr'']),
          (''start_year'', IntCol [2015, 2020]), (''end_year'', IntCol [2019, 2024])]],
        Inr 1)
   \<and> fst (query_result_df int_of_digits
       [[(''zarr_path'', StrCol [''a.zarr'', ''b.zarr'']),
         (''time_range'', StrCol [''20150101-20191231'', ''20200101-20241231''])]] 0) ! 0
     = [(''zarr_path'', StrCol [''a.zarr'', ''b.zarr'']),
        (''time_range'', StrCol [''20150101-20191231'', ''20200101-20241231''])]"
proof -
  let ?st = "[[(''zarr_path'', StrCol [''a.zarr'', ''b.zarr'']),
               (''time_range'', StrCol [''20150101-20191231'', ''20200101-20241231''])]]"
  have len: "(0::nat) < length ?st" by simp
  have run: "query_result_df int_of_digits ?st 0
     = ([[(''zarr_path'', StrCol [''a.zarr'', ''b.zarr'']),
          (''time_range'', StrCol [''20150101-20191231'', ''20200101-20241231''])],
         [(''zarr_path'', StrCol [''a.zarr'', ''b.zarr'']),
          (''start_year'', IntCol [2015, 2020]), (''end_year'', IntCol [2019, 2024])]],
        Inr 1)"
    by (simp add: query_result_df_def df_copy_def add_year_column_def drop_inplace_def
        getitem_def setitem_def str_slice_def py_slice_def astype_int_def int_of_digits_def
        digit_of_def)
  from len run query_result_copy_frame [OF len, of int_of_digits]
  show ?thesis by simp
qed

section \<open>Properties of the floating-point rounding\<close>

text \<open>
  Rounding to nearest is monotone and commutes with the sign: these are the two properties
  of the format that the results below rest on. The exponent of \<open>binade\<close> is the right
  one, and a positive number rounds into the closure of its binade.
\<close>

lemma round_half_even_of_int: "round_half_even (of_int n) = n"
  by (simp add: round_half_even_def)

lemma round_half_even_mono: "x \<le> y \<Longrightarrow> round_half_even x \<le> round_half_even y"
proof -
  assume xy: "x \<le> y"
  then have f: "\<lfloor>x\<rfloor> \<le> \<lfloor>y\<rfloor>" by (rule floor_mono)
  show ?thesis
  proof (cases "\<lfloor>x\<rfloor> = \<lfloor>y\<rfloor>")
    case True
    with xy show ?thesis by (auto simp: round_half_even_def Let_def)
  next
    case False
    with f have "\<lfloor>x\<rfloor> + 1 \<le> \<lfloor>y\<rfloor>" by simp
    moreover have "round_half_even x \<le> \<lfloor>x\<rfloor> + 1" by (simp add: round_half_even_def Let_def)
    moreover have "\<lfloor>y\<rfloor> \<le> round_half_even y" by (simp add: round_half_even_def Let_def)
    ultimately show ?thesis by linarith
  qed
qed

lemma round_half_even_minus: "round_half_even (- x) = - round_half_even x"
proof (cases "x = of_int \<lfloor>x\<rfloor>")
  case True
  then have "round_half_even x = \<lfloor>x\<rfloor>"
    using round_half_even_of_int [of "\<lfloor>x\<rfloor>"] by simp
  moreover from True have "- x = of_int (- \<lfloor>x\<rfloor>)" by simp
  then have "round_half_even (- x) = - \<lfloor>x\<rfloor>"
    using round_half_even_of_int [of "- \<lfloor>x\<rfloor>"] by simp
  ultimately show ?thesis by simp
next
  case False
  define f where "f = \<lfloor>x\<rfloor>"
  define d where "d = x - of_int f"
  have fl: "\<lfloor>- x\<rfloor> = - f - 1"
    using False by (simp add: floor_minus ceiling_altdef f_def)
  have d0: "0 < d" "d < 1" using False by (simp_all add: d_def f_def less_le) linarith
  have d': "- x - of_int (- f - 1) = 1 - d" by (simp add: d_def)
  have ev: "even (- f - 1) \<longleftrightarrow> odd f" by simp
  have a: "round_half_even x = (if d < 1 / 2 then f else if 1 / 2 < d then f + 1 else if even f then f else f + 1)"
    by (simp add: round_half_even_def Let_def f_def d_def)
  have b: "round_half_even (- x) = (if 1 - d < 1 / 2 then - f - 1 else if 1 / 2 < 1 - d then - f else if odd f then - f - 1 else - f)"
    unfolding round_half_even_def Let_def fl d' ev by simp
  show ?thesis
  proof (cases "d < 1 / 2")
    case True
    then show ?thesis unfolding a b by simp
  next
    case False
    note nlt = this
    show ?thesis
    proof (cases "1 / 2 < d")
      case True
      then show ?thesis unfolding a b by simp
    next
      case False
      with nlt have "d = 1 / 2" by simp
      then show ?thesis unfolding a b by simp
    qed
  qed
qed


lemma pow2_powi: "pow2 e = 2 powi e"
  by (simp add: pow2_def power_int_def inverse_eq_divide power_one_over)

lemma pow2_pos: "0 < pow2 e"
  by (simp add: pow2_powi)

lemma pow2_add: "pow2 (a + b) = pow2 a * pow2 b"
  by (simp add: pow2_powi power_int_add)

lemma pow2_mono: "a \<le> b \<Longrightarrow> pow2 a \<le> pow2 b"
  unfolding pow2_powi by (rule power_int_increasing) simp_all

lemma pow2_less_iff: "pow2 a < pow2 b \<longleftrightarrow> a < b"
proof
  assume "pow2 a < pow2 b"
  show "a < b"
  proof (rule ccontr)
    assume "\<not> a < b"
    then have "pow2 b \<le> pow2 a" by (intro pow2_mono) simp
    with \<open>pow2 a < pow2 b\<close> show False by simp
  qed
next
  assume "a < b"
  then show "pow2 a < pow2 b"
    unfolding pow2_powi by (intro power_int_strict_increasing) simp_all
qed

lemma pow2_nat: "pow2 (int n) = 2 ^ n"
  by (simp add: pow2_def)

lemma of_int_le_pow2: "(m::int) \<le> 2 ^ k \<Longrightarrow> real_of_int m \<le> 2 ^ k"
proof -
  assume "m \<le> 2 ^ k"
  then have "real_of_int m \<le> real_of_int (2 ^ k)" by (simp only: of_int_le_iff)
  then show ?thesis by simp
qed

lemma pow2_le_of_int: "2 ^ k \<le> (m::int) \<Longrightarrow> 2 ^ k \<le> real_of_int m"
proof -
  assume "2 ^ k \<le> m"
  then have "real_of_int (2 ^ k) \<le> real_of_int m" by (simp only: of_int_le_iff)
  then show ?thesis by simp
qed

lemma binade_bounds:
  assumes "0 < x"
  shows "pow2 (binade x) \<le> x" and "x < pow2 (binade x + 1)"
proof -
  have "pow2 (binade x) \<le> x \<and> x < pow2 (binade x + 1)"
  proof (cases "1 \<le> x")
    case True
    define m where "m = \<lfloor>x\<rfloor>"
    have m: "0 < m" using True by (simp add: m_def)
    then have k: "1 \<le> bitlen m" by (simp add: bitlen_alt_def)
    from bitlen_bounds [OF m] have lo: "2 ^ nat (bitlen m - 1) \<le> m" and hi: "m < 2 ^ nat (bitlen m)"
      by simp_all
    have b: "binade x = bitlen m - 1" using True by (simp add: binade_def m_def)
    have "pow2 (bitlen m - 1) = 2 ^ nat (bitlen m - 1)" using k by (simp add: pow2_def)
    also have "\<dots> \<le> real_of_int m" using lo by (rule pow2_le_of_int)
    also have "\<dots> \<le> x" by (simp add: m_def)
    finally have l: "pow2 (binade x) \<le> x" by (simp add: b)
    from hi have "m + 1 \<le> 2 ^ nat (bitlen m)" by simp
    then have "real_of_int (m + 1) \<le> 2 ^ nat (bitlen m)"
      by (rule of_int_le_pow2)
    moreover have "x < real_of_int (m + 1)" by (simp add: m_def)
    moreover have "pow2 (bitlen m) = 2 ^ nat (bitlen m)" using k by (simp add: pow2_def)
    ultimately have "x < pow2 (binade x + 1)" by (simp add: b)
    with l show ?thesis by simp
  next
    case False
    define y where "y = 1 / x"
    define n where "n = \<lceil>y\<rceil> - 1"
    define k where "k = bitlen n"
    have y1: "1 < y" using False assms by (simp add: y_def)
    then have "2 \<le> \<lceil>y\<rceil>" by (simp add: le_ceiling_iff)
    then have n: "0 < n" by (simp add: n_def)
    then have k1: "1 \<le> k" by (simp add: bitlen_alt_def k_def)
    from bitlen_bounds [OF n] have lo: "2 ^ nat (k - 1) \<le> n" and hi: "n < 2 ^ nat k"
      by (simp_all add: k_def)
    have ny: "real_of_int n < y" "y \<le> real_of_int n + 1"
      using ceiling_correct [of y] by (simp_all add: n_def)
    have b: "binade x = - k" using False by (simp add: binade_def y_def n_def k_def)
    have x: "1 / y = x" by (simp add: y_def)
    from hi have "n + 1 \<le> 2 ^ nat k" by simp
    then have "real_of_int (n + 1) \<le> 2 ^ nat k"
      by (rule of_int_le_pow2)
    with ny(2) have "y \<le> (2::real) ^ nat k" by linarith
    then have "1 / (2::real) ^ nat k \<le> 1 / y" using y1 by (intro divide_left_mono) simp_all
    then have "1 / (2::real) ^ nat k \<le> x" unfolding x .
    moreover have "pow2 (- k) = 1 / 2 ^ nat k" using k1 by (simp add: pow2_def)
    ultimately have l: "pow2 (binade x) \<le> x" unfolding b by simp
    have "(2::real) ^ nat (k - 1) \<le> real_of_int n"
      using lo by (rule pow2_le_of_int)
    then have "(2::real) ^ nat (k - 1) < y" using ny(1) by (rule le_less_trans)
    then have "1 / y < 1 / (2::real) ^ nat (k - 1)" using y1 by (intro divide_strict_left_mono) simp_all
    then have "x < 1 / (2::real) ^ nat (k - 1)" unfolding x .
    moreover have "pow2 (- k + 1) = 1 / 2 ^ nat (k - 1)"
    proof (cases "k = 1")
      case True
      then show ?thesis by (simp add: pow2_def)
    next
      case False
      with k1 have "- k + 1 < 0" "- (- k + 1) = k - 1" by simp_all
      then show ?thesis by (simp add: pow2_def)
    qed
    ultimately have "x < pow2 (binade x + 1)" unfolding b by simp
    with l show ?thesis by simp
  qed
  then show "pow2 (binade x) \<le> x" and "x < pow2 (binade x + 1)" by simp_all
qed

lemma binade_mono:
  assumes "0 < x" "x \<le> y"
  shows "binade x \<le> binade y"
proof -
  have "pow2 (binade x) \<le> x" using assms(1) by (rule binade_bounds)
  also note assms(2)
  also have "y < pow2 (binade y + 1)" using assms by (intro binade_bounds) simp
  finally show ?thesis by (simp add: pow2_less_iff)
qed


lemma fl_round_minus: "fl_round p (- x) = - fl_round p x"
  by (simp add: fl_round_def Let_def round_half_even_minus)

lemma fl_round_pos_bounds:
  assumes "0 < x" "0 < p"
  shows "pow2 (binade x) \<le> fl_round p x" and "fl_round p x \<le> pow2 (binade x + 1)"
proof -
  define e where "e = binade x"
  define q where "q = pow2 (e + 1 - int p)"
  have q: "0 < q" by (simp add: q_def pow2_pos)
  have fl: "fl_round p x = of_int (round_half_even (x / q)) * q"
    using assms(1) by (simp add: fl_round_def Let_def q_def e_def)
  have lo: "pow2 e = 2 ^ (p - 1) * q"
  proof -
    have "e = int (p - 1) + (e + 1 - int p)" using assms(2) by simp
    then have "pow2 e = pow2 (int (p - 1)) * pow2 (e + 1 - int p)"
      by (metis pow2_add)
    then show ?thesis by (simp add: pow2_nat q_def)
  qed
  have hi: "pow2 (e + 1) = 2 ^ p * q"
  proof -
    have "e + 1 = int p + (e + 1 - int p)" by simp
    then have "pow2 (e + 1) = pow2 (int p) * pow2 (e + 1 - int p)"
      by (metis pow2_add)
    then show ?thesis by (simp add: pow2_nat q_def)
  qed
  from binade_bounds [OF assms(1)] have "2 ^ (p - 1) * q \<le> x" "x \<le> 2 ^ p * q"
    by (simp_all add: e_def [symmetric] lo hi)
  then have b: "real_of_int (2 ^ (p - 1)) \<le> x / q" "x / q \<le> real_of_int (2 ^ p)"
    using q by (simp_all add: pos_le_divide_eq pos_divide_le_eq)
  have "round_half_even (real_of_int (2 ^ (p - 1))) \<le> round_half_even (x / q)"
    and "round_half_even (x / q) \<le> round_half_even (real_of_int (2 ^ p))"
    using b by (simp_all only: round_half_even_mono)
  then have "2 ^ (p - 1) \<le> round_half_even (x / q)" "round_half_even (x / q) \<le> 2 ^ p"
    unfolding round_half_even_of_int by simp_all
  then have "real_of_int (2 ^ (p - 1)) \<le> real_of_int (round_half_even (x / q))"
    and "real_of_int (round_half_even (x / q)) \<le> real_of_int (2 ^ p)"
    by (simp_all only: of_int_le_iff)
  then have "real_of_int (2 ^ (p - 1)) * q \<le> real_of_int (round_half_even (x / q)) * q"
    and "real_of_int (round_half_even (x / q)) * q \<le> real_of_int (2 ^ p) * q"
    using q by (simp_all only: mult_le_cancel_right_pos)
  then show "pow2 (binade x) \<le> fl_round p x" and "fl_round p x \<le> pow2 (binade x + 1)"
    unfolding fl e_def [symmetric] lo hi by simp_all
qed

lemma fl_round_pos_mono:
  assumes "0 < x" "x \<le> y" "0 < p"
  shows "fl_round p x \<le> fl_round p y"
proof (cases "binade x = binade y")
  case True
  define q where "q = pow2 (binade y + 1 - int p)"
  have q: "0 < q" by (simp add: q_def pow2_pos)
  from assms(2) q have "x / q \<le> y / q" by (simp add: divide_right_mono)
  then have "round_half_even (x / q) \<le> round_half_even (y / q)" by (rule round_half_even_mono)
  then have "real_of_int (round_half_even (x / q)) \<le> real_of_int (round_half_even (y / q))"
    by (simp only: of_int_le_iff)
  then have "real_of_int (round_half_even (x / q)) * q \<le> real_of_int (round_half_even (y / q)) * q"
    using q by (simp only: mult_le_cancel_right_pos)
  then show ?thesis
    using assms(1,2) True by (simp add: fl_round_def Let_def q_def)
next
  case False
  from assms have y: "0 < y" by simp
  from False binade_mono [OF assms(1,2)] have "binade x + 1 \<le> binade y" by simp
  then have "pow2 (binade x + 1) \<le> pow2 (binade y)" by (rule pow2_mono)
  with fl_round_pos_bounds(2) [OF assms(1,3)] fl_round_pos_bounds(1) [OF y assms(3)]
  show ?thesis by linarith
qed

lemma fl_round_zero: "fl_round p 0 = 0"
  by (simp add: fl_round_def)

lemma fl_round_pos: "0 < x \<Longrightarrow> 0 < p \<Longrightarrow> 0 < fl_round p x"
  using fl_round_pos_bounds(1) [of x p] pow2_pos [of "binade x"] by linarith

lemma fl_round_mono:
  assumes "0 < p" "x \<le> y"
  shows "fl_round p x \<le> fl_round p y"
proof -
  consider "0 < x" | "x \<le> 0" "0 \<le> y" | "y < 0" by linarith
  then show ?thesis
  proof cases
    case 1
    then show ?thesis using assms by (intro fl_round_pos_mono)
  next
    case 2
    have "fl_round p x \<le> 0"
    proof (cases "x = 0")
      case True
      then show ?thesis by (simp add: fl_round_zero)
    next
      case False
      with 2 have "0 < - x" by simp
      from fl_round_pos [OF this assms(1)] show ?thesis by (simp add: fl_round_minus)
    qed
    moreover have "0 \<le> fl_round p y"
    proof (cases "y = 0")
      case True
      then show ?thesis by (simp add: fl_round_zero)
    next
      case False
      with 2 have "0 < y" by simp
      from fl_round_pos [OF this assms(1)] show ?thesis by simp
    qed
    ultimately show ?thesis by simp
  next
    case 3
    with assms have "0 < - y" "- y \<le> - x" by simp_all
    from fl_round_pos_mono [OF this assms(1)] show ?thesis by (simp add: fl_round_minus)
  qed
qed

lemma float64_mono: "mono float64"
  by (rule monoI) (simp add: float64_def fl_round_mono)

lemma float64_minus: "float64 (- x) = - float64 x"
  by (simp add: float64_def fl_round_minus)

section \<open>Properties of the nearest grid cell\<close>

lemma set_where_hits:
  "set (where_hits c m) = {(i, j). i < length c \<and> j < length (c ! i) \<and> c ! i ! j = m}"
  by (auto simp: where_hits_def)

lemma distinct_concat_Pair:
  "distinct xs \<Longrightarrow> (\<And>i. distinct (g i)) \<Longrightarrow> distinct (concat (map (\<lambda>i. map (Pair i) (g i)) xs))"
  by (induction xs) (auto simp: distinct_map inj_on_def)

lemma distinct_where_hits: "distinct (where_hits c m)"
  unfolding where_hits_def by (rule distinct_concat_Pair) simp_all

lemma first_min_Inr:
  "(case vs of [] \<Rightarrow> Inl ValueError | v # vs' \<Rightarrow> Inr (fold min vs' v)) = Inr (m::real)
     \<longleftrightarrow> vs \<noteq> [] \<and> m = Min (set vs)"
  by (cases vs) (auto simp: Min.set_eq_fold [symmetric])

lemma np_min_Inr:
  "np_min c = Inr m \<longleftrightarrow> concat c \<noteq> [] \<and> m = Min (set (concat c))"
  unfolding np_min_def by (rule first_min_Inr)

lemma first_min_Inl:
  "(case vs of [] \<Rightarrow> Inl ValueError | v # vs' \<Rightarrow> Inr (fold min vs' v)) = Inl e
     \<longleftrightarrow> vs = [] \<and> e = ValueError"
  by (cases vs) auto

lemma np_min_Inl: "np_min c = Inl e \<longleftrightarrow> concat c = [] \<and> e = ValueError"
  unfolding np_min_def by (rule first_min_Inl)

lemma set_concat_nth:
  "set (concat c) = {c ! i ! j | i j. i < length c \<and> j < length (c ! i)}"
proof (intro set_eqI iffI)
  fix v assume "v \<in> set (concat c)"
  then obtain xs where xs: "xs \<in> set c" "v \<in> set xs" by auto
  then obtain i j where "i < length c" "c ! i = xs" "j < length xs" "xs ! j = v"
    by (auto simp: in_set_conv_nth)
  then show "v \<in> {c ! i ! j | i j. i < length c \<and> j < length (c ! i)}" by blast
next
  fix v assume "v \<in> {c ! i ! j | i j. i < length c \<and> j < length (c ! i)}"
  then obtain i j where "i < length c" "j < length (c ! i)" "v = c ! i ! j" by blast
  then have "c ! i \<in> set c" "v \<in> set (c ! i)" by simp_all
  then show "v \<in> set (concat c)" by auto
qed

lemma unpack_single:
  "(case (map fst hs, map snd hs) of ([x], [y]) \<Rightarrow> Inr (x, y) | _ \<Rightarrow> Inl ValueError) = Inr p
     \<longleftrightarrow> hs = [p]"
  by (cases hs; cases "tl hs") (auto split: list.splits)

lemma distinct_singleton: "distinct hs \<Longrightarrow> hs = [p] \<longleftrightarrow> set hs = {p}"
  by (cases hs; cases "tl hs") auto

lemma unpack_min_iff:
  "(case np_min c of Inl e \<Rightarrow> Inl e
         | Inr m \<Rightarrow>
             (case np_where_eq c m of
                ([xloc], [yloc]) \<Rightarrow> Inr (xloc, yloc)
              | _ \<Rightarrow> Inl ValueError)) = Inr (x, y) \<longleftrightarrow>
     x < length c \<and> y < length (c ! x) \<and>
     (\<forall>i < length c. \<forall>j < length (c ! i).
        c ! x ! y \<le> c ! i ! j \<and> (c ! i ! j = c ! x ! y \<longrightarrow> i = x \<and> j = y))"
  (is "?lhs = Inr (x, y) \<longleftrightarrow> ?rhs")
proof
  assume run: "?lhs = Inr (x, y)"
  then obtain m where m: "np_min c = Inr m" by (cases "np_min c") auto
  with run have "where_hits c m = [(x, y)]"
    using unpack_single [of "where_hits c m" "(x, y)"] by (simp add: np_where_eq_def)
  then have hits: "set (where_hits c m) = {(x, y)}" by simp
  then have xy: "x < length c" "y < length (c ! x)" "c ! x ! y = m"
    by (auto simp: set_where_hits)
  from m have mm: "m = Min (set (concat c))" by (simp add: np_min_Inr)
  have "c ! x ! y \<le> c ! i ! j \<and> (c ! i ! j = c ! x ! y \<longrightarrow> i = x \<and> j = y)"
    if "i < length c" "j < length (c ! i)" for i j
  proof
    from that have "c ! i ! j \<in> set (concat c)" unfolding set_concat_nth by blast
    then show "c ! x ! y \<le> c ! i ! j" using xy(3) mm by simp
    show "c ! i ! j = c ! x ! y \<longrightarrow> i = x \<and> j = y"
    proof
      assume "c ! i ! j = c ! x ! y"
      with that xy(3) have "(i, j) \<in> set (where_hits c m)" by (simp add: set_where_hits)
      with hits show "i = x \<and> j = y" by simp
    qed
  qed
  with xy show ?rhs by blast
next
  assume r: ?rhs
  then have xy: "x < length c" "y < length (c ! x)" by simp_all
  then have inset: "c ! x ! y \<in> set (concat c)" unfolding set_concat_nth by blast
  then have ne: "concat c \<noteq> []" by (cases "concat c") simp_all
  define m where "m = Min (set (concat c))"
  have m: "np_min c = Inr m" using ne by (simp add: np_min_Inr m_def)
  have "m \<in> set (concat c)" unfolding m_def using ne by (intro Min_in) simp_all
  then obtain i j where ij: "i < length c" "j < length (c ! i)" "m = c ! i ! j"
    unfolding set_concat_nth by blast
  with r have "c ! x ! y \<le> m" by simp
  moreover have "m \<le> c ! x ! y" unfolding m_def using inset by simp
  ultimately have meq: "m = c ! x ! y" by simp
  have "set (where_hits c m) = {(x, y)}"
    using r xy meq by (auto simp: set_where_hits)
  then have "where_hits c m = [(x, y)]"
    using distinct_where_hits [of c m] by (simp add: distinct_singleton)
  then show "?lhs = Inr (x, y)"
    using m by (simp add: np_where_eq_def)
qed

lemma unpack_min_Inl:
  "(case np_min c of Inl e \<Rightarrow> Inl e
         | Inr m \<Rightarrow>
             (case np_where_eq c m of
                ([xloc], [yloc]) \<Rightarrow> Inr (xloc, yloc)
              | _ \<Rightarrow> Inl ValueError)) = Inl e \<Longrightarrow> e = ValueError"
  by (auto simp: np_min_Inl split: sum.splits prod.splits list.splits)

lemma nearest_cell_Inl: "nearest_cell L M t u = Inl e \<Longrightarrow> e = ValueError"
  unfolding nearest_cell_def Let_def by (rule unpack_min_Inl)

lemma nearest_cell_Inr_iff:
  "nearest_cell L M t u = Inr (x, y) \<longleftrightarrow>
     x < length M \<and> y < length L \<and>
     (\<forall>i < length L. \<forall>j < length M. cost L M t u y x \<le> cost L M t u i j) \<and>
     (\<forall>i < length L. \<forall>j < length M. cost L M t u i j = cost L M t u y x \<longrightarrow> i = y \<and> j = x)"
proof -
  let ?c = "np_maximum (abs_diff M u) (abs_diff L t)"
  have len: "length ?c = length M" by (simp add: np_maximum_def abs_diff_def)
  have row: "length (?c ! j) = length L" if "j < length M" for j
    using that by (simp add: np_maximum_def abs_diff_def)
  have val: "?c ! j ! i = cost L M t u i j" if "j < length M" "i < length L" for i j
    using that by (simp add: np_maximum_def abs_diff_def cost_def max.commute)
  have "nearest_cell L M t u = Inr (x, y) \<longleftrightarrow>
     x < length ?c \<and> y < length (?c ! x) \<and>
     (\<forall>i < length ?c. \<forall>j < length (?c ! i).
        ?c ! x ! y \<le> ?c ! i ! j \<and> (?c ! i ! j = ?c ! x ! y \<longrightarrow> i = x \<and> j = y))"
    unfolding nearest_cell_def Let_def by (rule unpack_min_iff)
  also have "\<dots> \<longleftrightarrow> x < length M \<and> y < length L \<and>
     (\<forall>j < length M. \<forall>i < length L.
        cost L M t u y x \<le> cost L M t u i j \<and> (cost L M t u i j = cost L M t u y x \<longrightarrow> j = x \<and> i = y))"
    using len row val by auto
  also have "\<dots> \<longleftrightarrow> x < length M \<and> y < length L \<and>
     (\<forall>i < length L. \<forall>j < length M. cost L M t u y x \<le> cost L M t u i j) \<and>
     (\<forall>i < length L. \<forall>j < length M. cost L M t u i j = cost L M t u y x \<longrightarrow> i = y \<and> j = x)"
    by blast
  finally show ?thesis .
qed




lemma tied_cells_raise:
  assumes "i1 < length L" "j1 < length M" "i2 < length L" "j2 < length M"
    and "(i1, j1) \<noteq> (i2, j2)"
    and "cost L M t u i1 j1 = cost L M t u i2 j2"
    and "\<forall>i < length L. \<forall>j < length M. cost L M t u i1 j1 \<le> cost L M t u i j"
  shows "nearest_cell L M t u = Inl ValueError"
proof (cases "nearest_cell L M t u")
  case (Inl e)
  then show ?thesis using nearest_cell_Inl by blast
next
  case (Inr p)
  obtain x y where p: "p = (x, y)" by (cases p)
  from Inr p have r: "x < length M" "y < length L"
    "\<forall>i < length L. \<forall>j < length M. cost L M t u y x \<le> cost L M t u i j"
    "\<forall>i < length L. \<forall>j < length M. cost L M t u i j = cost L M t u y x \<longrightarrow> i = y \<and> j = x"
    by (simp_all add: nearest_cell_Inr_iff)
  from r(3) assms(1,2) have "cost L M t u y x \<le> cost L M t u i1 j1" by simp
  moreover from assms(7) r(1,2) have "cost L M t u i1 j1 \<le> cost L M t u y x" by simp
  ultimately have e1: "cost L M t u i1 j1 = cost L M t u y x" by simp
  with assms(6) have e2: "cost L M t u i2 j2 = cost L M t u y x" by simp
  from r(4) e1 assms(1,2) have "i1 = y \<and> j1 = x" by simp
  moreover from r(4) e2 assms(3,4) have "i2 = y \<and> j2 = x" by simp
  ultimately show ?thesis using assms(5) by simp
qed


subsection \<open>The cell that the floating-point computation returns\<close>

text \<open>
  The computation with rounded subtractions returns a cell only where the exact one returns
  the same cell, and it raises on every tie of the exact costs, whenever the rounding is
  monotone and commutes with the sign.
\<close>

lemma nearest_cell_fl_Inl: "nearest_cell_fl rnd L M t u = Inl e \<Longrightarrow> e = ValueError"
  unfolding nearest_cell_fl_def Let_def by (rule unpack_min_Inl)

lemma nearest_cell_fl_Inr_iff:
  "nearest_cell_fl rnd L M t u = Inr (x, y) \<longleftrightarrow>
     x < length M \<and> y < length L \<and>
     (\<forall>i < length L. \<forall>j < length M. cost_fl rnd L M t u y x \<le> cost_fl rnd L M t u i j) \<and>
     (\<forall>i < length L. \<forall>j < length M.
        cost_fl rnd L M t u i j = cost_fl rnd L M t u y x \<longrightarrow> i = y \<and> j = x)"
proof -
  let ?c = "np_maximum (abs_diff_fl rnd M u) (abs_diff_fl rnd L t)"
  have len: "length ?c = length M" by (simp add: np_maximum_def abs_diff_fl_def)
  have row: "length (?c ! j) = length L" if "j < length M" for j
    using that by (simp add: np_maximum_def abs_diff_fl_def)
  have val: "?c ! j ! i = cost_fl rnd L M t u i j" if "j < length M" "i < length L" for i j
    using that by (simp add: np_maximum_def abs_diff_fl_def cost_fl_def max.commute)
  have "nearest_cell_fl rnd L M t u = Inr (x, y) \<longleftrightarrow>
     x < length ?c \<and> y < length (?c ! x) \<and>
     (\<forall>i < length ?c. \<forall>j < length (?c ! i).
        ?c ! x ! y \<le> ?c ! i ! j \<and> (?c ! i ! j = ?c ! x ! y \<longrightarrow> i = x \<and> j = y))"
    unfolding nearest_cell_fl_def Let_def by (rule unpack_min_iff)
  also have "\<dots> \<longleftrightarrow> x < length M \<and> y < length L \<and>
     (\<forall>j < length M. \<forall>i < length L.
        cost_fl rnd L M t u y x \<le> cost_fl rnd L M t u i j
        \<and> (cost_fl rnd L M t u i j = cost_fl rnd L M t u y x \<longrightarrow> j = x \<and> i = y))"
    using len row val by auto
  also have "\<dots> \<longleftrightarrow> x < length M \<and> y < length L \<and>
     (\<forall>i < length L. \<forall>j < length M. cost_fl rnd L M t u y x \<le> cost_fl rnd L M t u i j) \<and>
     (\<forall>i < length L. \<forall>j < length M.
        cost_fl rnd L M t u i j = cost_fl rnd L M t u y x \<longrightarrow> i = y \<and> j = x)"
    by blast
  finally show ?thesis .
qed

lemma abs_rnd:
  fixes rnd :: "real \<Rightarrow> real"
  assumes "mono rnd" "\<forall>x. rnd (- x) = - rnd x"
  shows "\<bar>rnd z\<bar> = rnd \<bar>z\<bar>"
proof -
  from assms(2) have "rnd 0 = - rnd 0" by (metis minus_zero)
  then have z: "rnd 0 = 0" by simp
  show ?thesis
  proof (cases "0 \<le> z")
    case True
    with assms(1) have "rnd 0 \<le> rnd z" by (rule monoD)
    with z True show ?thesis by simp
  next
    case False
    then have "0 \<le> - z" by simp
    with assms(1) have "rnd 0 \<le> rnd (- z)" by (rule monoD)
    with z assms(2) have "rnd z \<le> 0" by simp
    with False assms(2) show ?thesis by simp
  qed
qed

lemma cost_fl_rnd:
  assumes "mono rnd" "\<forall>x. rnd (- x) = - rnd x"
  shows "cost_fl rnd L M t u i j = rnd (cost L M t u i j)"
  unfolding cost_fl_def cost_def abs_rnd [OF assms]
  using assms(1) by (rule max_of_mono)

lemma nearest_cell_fl_exact:
  assumes "mono rnd" "\<forall>x. rnd (- x) = - rnd x"
    and "nearest_cell_fl rnd L M t u = Inr (x, y)"
  shows "nearest_cell L M t u = Inr (x, y)"
proof -
  note c = cost_fl_rnd [OF assms(1,2)]
  from assms(3) have b: "x < length M" "y < length L"
    and least: "\<forall>i < length L. \<forall>j < length M. rnd (cost L M t u y x) \<le> rnd (cost L M t u i j)"
    and only: "\<forall>i < length L. \<forall>j < length M.
        rnd (cost L M t u i j) = rnd (cost L M t u y x) \<longrightarrow> i = y \<and> j = x"
    unfolding nearest_cell_fl_Inr_iff c by simp_all
  have eq: "i = y \<and> j = x"
    if "i < length L" "j < length M" "cost L M t u i j \<le> cost L M t u y x" for i j
  proof -
    from assms(1) that(3) have "rnd (cost L M t u i j) \<le> rnd (cost L M t u y x)" by (rule monoD)
    moreover from least that(1,2) have "rnd (cost L M t u y x) \<le> rnd (cost L M t u i j)" by simp
    ultimately have "rnd (cost L M t u i j) = rnd (cost L M t u y x)" by simp
    with only that(1,2) show ?thesis by simp
  qed
  have "cost L M t u y x \<le> cost L M t u i j" if "i < length L" "j < length M" for i j
  proof (rule ccontr)
    assume "\<not> cost L M t u y x \<le> cost L M t u i j"
    then have lt: "cost L M t u i j < cost L M t u y x" by simp
    with eq [OF that] have "i = y \<and> j = x" by simp
    with lt show False by simp
  qed
  moreover have "i = y \<and> j = x"
    if "i < length L" "j < length M" "cost L M t u i j = cost L M t u y x" for i j
    using eq [OF that(1,2)] that(3) by simp
  ultimately show ?thesis
    unfolding nearest_cell_Inr_iff using b by blast
qed

lemma tied_cells_raise_fl:
  assumes "mono rnd" "\<forall>x. rnd (- x) = - rnd x"
    and "i1 < length L" "j1 < length M" "i2 < length L" "j2 < length M"
    and "(i1, j1) \<noteq> (i2, j2)"
    and "cost L M t u i1 j1 = cost L M t u i2 j2"
    and "\<forall>i < length L. \<forall>j < length M. cost L M t u i1 j1 \<le> cost L M t u i j"
  shows "nearest_cell_fl rnd L M t u = Inl ValueError"
proof (cases "nearest_cell_fl rnd L M t u")
  case (Inl e)
  then show ?thesis using nearest_cell_fl_Inl by blast
next
  case (Inr p)
  obtain x y where "p = (x, y)" by (cases p)
  with Inr have "nearest_cell L M t u = Inr (x, y)"
    by (intro nearest_cell_fl_exact [OF assms(1,2)]) simp
  moreover have "nearest_cell L M t u = Inl ValueError"
    using assms(3-9) by (rule tied_cells_raise)
  ultimately show ?thesis by simp
qed

text \<open>
  With the identity as rounding the two models are the same. In double precision the
  rounding can make a tie that the exact costs do not have: for the latitudes -0.5 and
  0.5, the longitude 0 and the target (2^-60, 0), both differences round to 0.5.
\<close>

lemma rounding_makes_tie:
  "nearest_cell [- 0.5, 0.5] [0] (1 / 2 ^ 60) 0 = Inr (0, 1)
   \<and> cost_fl float64 [- 0.5, 0.5] [0] (1 / 2 ^ 60) 0 0 0 = 0.5
   \<and> cost_fl float64 [- 0.5, 0.5] [0] (1 / 2 ^ 60) 0 1 0 = 0.5
   \<and> nearest_cell_fl float64 [- 0.5, 0.5] [0] (1 / 2 ^ 60) 0 = Inl ValueError"
  by code_simp

lemma nearest_cell_fl_id: "nearest_cell_fl (\<lambda>x. x) L M t u = nearest_cell L M t u"
  by (simp add: nearest_cell_fl_def nearest_cell_def abs_diff_fl_def abs_diff_def)

text \<open>
  C3, as the code has it: nearest-cell resolution returns the pair (\<open>row\<close>, \<open>col\<close>) (as
  \<open>xloc = col\<close>, \<open>yloc = row\<close>) exactly when that cell is within the grid, the cost that the
  code computes for it, \<open>max \<bar>rnd (L ! row - targetLat)\<bar> \<bar>rnd (M ! col - targetLon)\<bar>\<close>
  with the rounding \<open>rnd\<close> of the two subtractions, is minimal over all cells, and no other
  cell has the same computed cost. In every other case (no cell, or several cells of
  minimal computed cost) it raises ValueError. When the rounding is monotone and commutes
  with the sign, as rounding to nearest does, the returned cell also minimises the exact
  cost \<open>max \<bar>L ! row - targetLat\<bar> \<bar>M ! col - targetLon\<bar>\<close>.
\<close>

theorem nearest_cell_fl_unique_minimum:
  "(nearest_cell_fl rnd L M targetLat targetLon = Inr (col, row) \<longleftrightarrow>
      row < length L \<and> col < length M
      \<and> (\<forall>i < length L. \<forall>j < length M.
           cost_fl rnd L M targetLat targetLon row col \<le> cost_fl rnd L M targetLat targetLon i j)
      \<and> (\<forall>i < length L. \<forall>j < length M.
           cost_fl rnd L M targetLat targetLon i j = cost_fl rnd L M targetLat targetLon row col
             \<longrightarrow> i = row \<and> j = col))
   \<and> (\<forall>e. nearest_cell_fl rnd L M targetLat targetLon = Inl e \<longrightarrow> e = ValueError)
   \<and> (mono rnd \<and> (\<forall>x. rnd (- x) = - rnd x)
        \<and> nearest_cell_fl rnd L M targetLat targetLon = Inr (col, row) \<longrightarrow>
          (\<forall>i < length L. \<forall>j < length M.
             cost L M targetLat targetLon row col \<le> cost L M targetLat targetLon i j))"
proof (intro conjI)
  show "nearest_cell_fl rnd L M targetLat targetLon = Inr (col, row) \<longleftrightarrow>
      row < length L \<and> col < length M
      \<and> (\<forall>i < length L. \<forall>j < length M.
           cost_fl rnd L M targetLat targetLon row col \<le> cost_fl rnd L M targetLat targetLon i j)
      \<and> (\<forall>i < length L. \<forall>j < length M.
           cost_fl rnd L M targetLat targetLon i j = cost_fl rnd L M targetLat targetLon row col
             \<longrightarrow> i = row \<and> j = col)"
    using nearest_cell_fl_Inr_iff [of rnd L M targetLat targetLon col row] by blast
  show "\<forall>e. nearest_cell_fl rnd L M targetLat targetLon = Inl e \<longrightarrow> e = ValueError"
    using nearest_cell_fl_Inl by blast
  show "mono rnd \<and> (\<forall>x. rnd (- x) = - rnd x)
        \<and> nearest_cell_fl rnd L M targetLat targetLon = Inr (col, row) \<longrightarrow>
          (\<forall>i < length L. \<forall>j < length M.
             cost L M targetLat targetLon row col \<le> cost L M targetLat targetLon i j)"
  proof
    assume a: "mono rnd \<and> (\<forall>x. rnd (- x) = - rnd x)
        \<and> nearest_cell_fl rnd L M targetLat targetLon = Inr (col, row)"
    then have "nearest_cell L M targetLat targetLon = Inr (col, row)"
      by (intro nearest_cell_fl_exact [of rnd]) simp_all
    then show "\<forall>i < length L. \<forall>j < length M.
             cost L M targetLat targetLon row col \<le> cost L M targetLat targetLon i j"
      by (simp add: nearest_cell_Inr_iff)
  qed
qed

theorem nearest_cell_fl_unique_minimum_witness:
  "nearest_cell_fl float64 [52, 53, 54] [9, 10, 11] 53.375 10.125 = Inr (1, 1)
   \<and> mono float64
   \<and> cost_fl float64 [52, 53, 54] [9, 10, 11] 53.375 10.125 1 1
       \<le> cost_fl float64 [52, 53, 54] [9, 10, 11] 53.375 10.125 2 0
   \<and> cost [52, 53, 54] [9, 10, 11] 53.375 10.125 1 1
       \<le> cost [52, 53, 54] [9, 10, 11] 53.375 10.125 2 0
   \<and> cost [52, 53, 54] [9, 10, 11] 53.375 10.125 1 1 = 0.375"
proof -
  have run: "nearest_cell_fl float64 [52, 53, 54] [9, 10, 11] 53.375 10.125 = Inr (1, 1)"
    by code_simp
  have odd: "\<forall>x. float64 (- x) = - float64 x" by (simp add: float64_minus)
  note t = nearest_cell_fl_unique_minimum [of float64 "[52, 53, 54]" "[9, 10, 11]" "53.375" "10.125" 1 1]
  from t run have "\<forall>i < length [52, 53, 54 :: real]. \<forall>j < length [9, 10, 11 :: real].
      cost_fl float64 [52, 53, 54] [9, 10, 11] 53.375 10.125 1 1
        \<le> cost_fl float64 [52, 53, 54] [9, 10, 11] 53.375 10.125 i j"
    by blast
  then have a: "cost_fl float64 [52, 53, 54] [9, 10, 11] 53.375 10.125 1 1
       \<le> cost_fl float64 [52, 53, 54] [9, 10, 11] 53.375 10.125 2 0"
    by simp
  from t run float64_mono odd have "\<forall>i < length [52, 53, 54 :: real]. \<forall>j < length [9, 10, 11 :: real].
      cost [52, 53, 54] [9, 10, 11] 53.375 10.125 1 1
        \<le> cost [52, 53, 54] [9, 10, 11] 53.375 10.125 i j"
    by blast
  then have b: "cost [52, 53, 54] [9, 10, 11] 53.375 10.125 1 1
       \<le> cost [52, 53, 54] [9, 10, 11] 53.375 10.125 2 0"
    by simp
  have c: "cost [52, 53, 54] [9, 10, 11] 53.375 10.125 1 1 = 0.375"
    by (simp add: cost_def)
  from run float64_mono a b c show ?thesis by blast
qed

text \<open>
  C3 as stated fails: with the latitudes 52 and 54, the longitude 10 and the target
  (53, 10), both cells have the cost 1 and no index pair is returned.
\<close>

theorem nearest_cell_fl_returns_counterexample:
  "cost_fl float64 [52, 54] [10] 53 10 0 0 = 1 \<and> cost_fl float64 [52, 54] [10] 53 10 1 0 = 1
   \<and> nearest_cell_fl float64 [52, 54] [10] 53 10 = Inl ValueError"
  by code_simp






section \<open>Properties of the annual series of a grid cell\<close>

lemma sorted_filter_le_takeWhile:
  "sorted (map f ps) \<Longrightarrow> filter (\<lambda>p. f p \<le> b) ps = takeWhile (\<lambda>p. f p \<le> b) ps"
proof (induction ps)
  case Nil
  then show ?case by simp
next
  case (Cons p ps)
  show ?case
  proof (cases "f p \<le> b")
    case True
    with Cons show ?thesis by simp
  next
    case False
    with Cons.prems have "\<forall>q \<in> set ps. \<not> f q \<le> b" by auto
    with False show ?thesis by (simp add: filter_empty_conv)
  qed
qed

lemma slice_sorted_filter:
  fixes f :: "'b \<Rightarrow> 'a::linorder"
  assumes "sorted (map f ps)"
  shows "py_slice (length (takeWhile (\<lambda>p. f p < a) ps)) (length (takeWhile (\<lambda>p. f p \<le> b) ps)) ps
         = filter (\<lambda>p. a \<le> f p \<and> f p \<le> b) ps"
  using assms
proof (induction ps)
  case Nil
  then show ?case by (simp add: py_slice_def)
next
  case (Cons p ps)
  show ?case
  proof (cases "f p < a")
    case True
    note lt = this
    show ?thesis
    proof (cases "f p \<le> b")
      case True
      with lt Cons show ?thesis by (simp add: py_slice_def)
    next
      case False
      with Cons.prems have "\<forall>q \<in> set ps. \<not> f q \<le> b" by auto
      with lt False show ?thesis by (simp add: py_slice_def filter_empty_conv)
    qed
  next
    case False
    with Cons.prems have all: "\<forall>q \<in> set (p # ps). a \<le> f q" by auto
    then have "filter (\<lambda>p. a \<le> f p \<and> f p \<le> b) (p # ps) = filter (\<lambda>p. f p \<le> b) (p # ps)"
      by (intro filter_cong) auto
    also have "\<dots> = takeWhile (\<lambda>p. f p \<le> b) (p # ps)"
      using Cons.prems by (rule sorted_filter_le_takeWhile)
    finally show ?thesis using False by (simp add: py_slice_def takeWhile_eq_take [symmetric])
  qed
qed


lemma py_slice_map: "py_slice i j (map f xs) = map f (py_slice i j xs)"
  by (simp add: py_slice_def take_map drop_map)

lemma zip_map_fst_snd: "zip (map fst qs) (map (h \<circ> snd) qs) = map (\<lambda>(t, g). (t, h g)) qs"
  by (induction qs) auto

lemma py_index_in_range: "n < m \<Longrightarrow> py_index m (int n) = Inr n"
  by (simp add: py_index_def)

lemma loc_time_slice_zip:
  fixes a b :: timestamp
  assumes "sorted (time arr)" "length (vals arr) = length (time arr)"
  shows "time (loc_time_slice arr a b)
           = map fst (filter (\<lambda>(t, g). a \<le> t \<and> t \<le> b) (zip (time arr) (vals arr)))"
    and "vals (loc_time_slice arr a b)
           = map snd (filter (\<lambda>(t, g). a \<le> t \<and> t \<le> b) (zip (time arr) (vals arr)))"
    and "lat (loc_time_slice arr a b) = lat arr"
    and "lon (loc_time_slice arr a b) = lon arr"
proof -
  let ?ps = "zip (time arr) (vals arr)"
  define qs where "qs = filter (\<lambda>(t, g). a \<le> t \<and> t \<le> b) ?ps"
  have t: "time arr = map fst ?ps" and v: "vals arr = map snd ?ps"
    using assms(2) by simp_all
  have srt: "sorted (map fst ?ps)" using assms(1) t by simp
  have l: "searchsorted_left (time arr) a = length (takeWhile (\<lambda>p. fst p < a) ?ps)"
    unfolding searchsorted_left_def by (subst t) (simp add: takeWhile_map comp_def)
  have r: "searchsorted_right (time arr) b = length (takeWhile (\<lambda>p. fst p \<le> b) ?ps)"
    unfolding searchsorted_right_def by (subst t) (simp add: takeWhile_map comp_def)
  have sl: "py_slice (searchsorted_left (time arr) a) (searchsorted_right (time arr) b) ?ps = qs"
    unfolding l r qs_def using slice_sorted_filter [OF srt, of a b]
    by (simp add: case_prod_unfold)
  show "time (loc_time_slice arr a b)
           = map fst (filter (\<lambda>(t, g). a \<le> t \<and> t \<le> b) (zip (time arr) (vals arr)))"
    unfolding qs_def [symmetric] sl [symmetric] py_slice_map [symmetric]
    using assms(2) by (simp add: loc_time_slice_def Let_def)
  show "vals (loc_time_slice arr a b)
           = map snd (filter (\<lambda>(t, g). a \<le> t \<and> t \<le> b) (zip (time arr) (vals arr)))"
    unfolding qs_def [symmetric] sl [symmetric] py_slice_map [symmetric]
    using assms(2) by (simp add: loc_time_slice_def Let_def)
  show "lat (loc_time_slice arr a b) = lat arr" "lon (loc_time_slice arr a b) = lon arr"
    by (simp_all add: loc_time_slice_def Let_def)
qed

text \<open>
  C6, as the code has it: on an array whose time index is increasing, for a year \<open>Y\<close> and a
  cell (\<open>y\<close>, \<open>x\<close>) of the grid, the extraction returns, in time order, exactly the samples
  whose timestamp lies between 12:00:00 of 1 January and 12:00:00 of 31 December of \<open>Y\<close>,
  both included, each with the value of the cell (\<open>y\<close>, \<open>x\<close>) minus 273.15 in the arithmetic
  of the array: the rounded difference of the value and the rounded constant.
\<close>

theorem annual_series_extraction:
  assumes "sorted (time arr)" and "length (vals arr) = length (time arr)"
    and "y < length (lat arr)" and "x < length (lon arr)"
  shows "tasmax_year_place_xr rnd (tasmax_year_xr arr Y) (int y) (int x) =
     Inr (map (\<lambda>(t, g). (t, rnd (g ! y ! x - rnd 273.15)))
            (filter (\<lambda>(t, g). (Y, 1, 1, 12, 0, 0, 0) \<le> t \<and> t \<le> (Y, 12, 31, 12, 0, 0, 0))
               (zip (time arr) (vals arr))))"
  using assms(3,4)
  by (simp add: tasmax_year_place_xr_def tasmax_year_xr_def bind_err_def py_index_in_range
      loc_time_slice_zip [OF assms(1,2)] zip_map_fst_snd time_start_def time_end_def)

theorem annual_series_extraction_witness:
  "sorted (time example_tasmax_xr)
   \<and> length (vals example_tasmax_xr) = length (time example_tasmax_xr)
   \<and> (0::nat) < length (lat example_tasmax_xr) \<and> (0::nat) < length (lon example_tasmax_xr)
   \<and> tasmax_year_place_xr float64 (tasmax_year_xr example_tasmax_xr 2015) 0 0
       = Inr [((2015, 1, 1, 12, 0, 0, 0), 148214167424205 / 8796093022208),
              ((2015, 12, 31, 12, 0, 0, 0), 236175097646285 / 8796093022208)]"
proof -
  have s: "sorted (time example_tasmax_xr)"
    by (simp add: example_tasmax_xr_def less_eq_prod_def)
  have l: "length (vals example_tasmax_xr) = length (time example_tasmax_xr)"
    by (simp add: example_tasmax_xr_def)
  have y: "(0::nat) < length (lat example_tasmax_xr)" and x: "(0::nat) < length (lon example_tasmax_xr)"
    by (simp_all add: example_tasmax_xr_def)
  have e: "tasmax_year_place_xr float64 (tasmax_year_xr example_tasmax_xr 2015) (int 0) (int 0) =
     Inr (map (\<lambda>(t, g). (t, float64 (g ! 0 ! 0 - float64 273.15)))
            (filter (\<lambda>(t, g). (2015, 1, 1, 12, 0, 0, 0) \<le> t \<and> t \<le> (2015, 12, 31, 12, 0, 0, 0))
               (zip (time example_tasmax_xr) (vals example_tasmax_xr))))"
    by (rule annual_series_extraction [OF s l y x])
  have r: "map (\<lambda>(t, g). (t, float64 (g ! 0 ! 0 - float64 273.15)))
            (filter (\<lambda>(t, g). (2015, 1, 1, 12, 0, 0, 0) \<le> t \<and> t \<le> (2015, 12, 31, 12, 0, 0, 0))
               (zip (time example_tasmax_xr) (vals example_tasmax_xr)))
       = [((2015, 1, 1, 12, 0, 0, 0), 148214167424205 / 8796093022208),
          ((2015, 12, 31, 12, 0, 0, 0), 236175097646285 / 8796093022208)]"
    by code_simp
  from e have "tasmax_year_place_xr float64 (tasmax_year_xr example_tasmax_xr 2015) 0 0
       = Inr [((2015, 1, 1, 12, 0, 0, 0), 148214167424205 / 8796093022208),
              ((2015, 12, 31, 12, 0, 0, 0), 236175097646285 / 8796093022208)]"
    unfolding r by simp
  with s l y x show ?thesis by blast
qed

text \<open>
  C6 as stated fails: the subtraction is not exact. In double precision the sample of
  303 K on 31 December 2015 in the example array becomes 29.850000000000023 (the
  fraction below), which is not 303 - 273.15.
\<close>

theorem annual_series_exact_counterexample:
  "vals example_tasmax_xr ! 2 ! 1 ! 1 = 303
   \<and> tasmax_year_place_xr float64 (tasmax_year_xr example_tasmax_xr 2015) 1 1
       = Inr [((2015, 1, 1, 12, 0, 0, 0), 176801469746381 / 8796093022208),
              ((2015, 12, 31, 12, 0, 0, 0), 262563376712909 / 8796093022208)]
   \<and> (262563376712909 / 8796093022208 :: real) \<noteq> 303 - 273.15"
proof -
  have "tasmax_year_place_xr float64 (tasmax_year_xr example_tasmax_xr 2015) 1 1
       = Inr [((2015, 1, 1, 12, 0, 0, 0), 176801469746381 / 8796093022208),
              ((2015, 12, 31, 12, 0, 0, 0), 262563376712909 / 8796093022208)]"
    by code_simp
  then show ?thesis by (simp add: example_tasmax_xr_def)
qed

section \<open>Properties of the rectangle of the grid cell\<close>

lemma coord_at_nat: "n < length cs \<Longrightarrow> coord_at cs (int n) = Inr (cs ! n)"
  by (simp add: coord_at_def py_index_def)

lemma coord_at_Suc: "Suc n < length cs \<Longrightarrow> coord_at cs (int n + 1) = Inr (cs ! Suc n)"
  using coord_at_nat [of "Suc n" cs] by (simp add: add.commute)

lemma coord_at_end: "coord_at cs (int (length cs)) = Inl IndexError"
  by (simp add: coord_at_def py_index_def)

lemma coord_at_pred:
  "n < length cs \<Longrightarrow>
     coord_at cs (int n - 1) = Inr (cs ! (if n = 0 then length cs - 1 else n - 1))"
  by (auto simp: coord_at_def py_index_def nat_diff_distrib')

lemma rect_mid_Inl: "rect_mid cs k1 k2 = Inl e \<Longrightarrow> e = IndexError"
  by (auto simp: rect_mid_def bind_err_def coord_at_def py_index_def split: sum.splits if_splits)

lemma rect_mid_pred:
  "n < length cs \<Longrightarrow>
     rect_mid cs (int n - 1) (int n)
       = Inr ((cs ! (if n = 0 then length cs - 1 else n - 1) + cs ! n) / 2)"
  by (simp add: rect_mid_def bind_err_def coord_at_nat coord_at_pred)

text \<open>
  C9: the rectangle reads the coordinates at the indices \<open>yloc - 1\<close>, \<open>yloc + 1\<close>,
  \<open>xloc - 1\<close> and \<open>xloc + 1\<close>. For a cell (\<open>y\<close>, \<open>x\<close>) of the grid: when \<open>y\<close> or \<open>x\<close> is the
  last index of its axis, the computation raises IndexError; otherwise it returns the four
  midpoints, where for \<open>y = 0\<close> (or \<open>x = 0\<close>) the neighbour at index \<open>-1\<close> is the last
  element of the axis. On each axis, the access one past the last index raises IndexError
  and the access one before index 0 gives the last coordinate.
\<close>

theorem rect_model_edges:
  assumes "y < length lats" and "x < length lons"
  shows "(Suc y < length lats \<and> Suc x < length lons \<longrightarrow>
            rect_model lats lons (int y) (int x) =
              Inr (((lats ! (if y = 0 then length lats - 1 else y - 1) + lats ! y) / 2,
                    (lons ! (if x = 0 then length lons - 1 else x - 1) + lons ! x) / 2),
                   ((lats ! Suc y + lats ! y) / 2, (lons ! Suc x + lons ! x) / 2)))
       \<and> (Suc y = length lats \<or> Suc x = length lons \<longrightarrow>
            rect_model lats lons (int y) (int x) = Inl IndexError)
       \<and> coord_at lats (int (length lats - 1) + 1) = Inl IndexError
       \<and> coord_at lons (int (length lons - 1) + 1) = Inl IndexError
       \<and> coord_at lats (int 0 - 1) = Inr (lats ! (length lats - 1))
       \<and> coord_at lons (int 0 - 1) = Inr (lons ! (length lons - 1))"
proof (intro conjI impI)
  from assms have "int (length lats - 1) + 1 = int (length lats)"
    and "int (length lons - 1) + 1 = int (length lons)" by simp_all
  then show "coord_at lats (int (length lats - 1) + 1) = Inl IndexError"
    and "coord_at lons (int (length lons - 1) + 1) = Inl IndexError"
    by (simp_all add: coord_at_end)
  from assms have "0 < length lats" and "0 < length lons" by auto
  then show "coord_at lats (int 0 - 1) = Inr (lats ! (length lats - 1))"
    and "coord_at lons (int 0 - 1) = Inr (lons ! (length lons - 1))"
    using coord_at_pred [of 0 lats] coord_at_pred [of 0 lons] by simp_all
next
  assume "Suc y < length lats \<and> Suc x < length lons"
  then show "rect_model lats lons (int y) (int x) =
              Inr (((lats ! (if y = 0 then length lats - 1 else y - 1) + lats ! y) / 2,
                    (lons ! (if x = 0 then length lons - 1 else x - 1) + lons ! x) / 2),
                   ((lats ! Suc y + lats ! y) / 2, (lons ! Suc x + lons ! x) / 2))"
    using assms
    by (simp add: rect_model_def rect_mid_def bind_err_def coord_at_nat coord_at_Suc coord_at_pred)
next
  assume edge: "Suc y = length lats \<or> Suc x = length lons"
  note lat1 = rect_mid_pred [OF assms(1)] and lon1 = rect_mid_pred [OF assms(2)]
  from edge show "rect_model lats lons (int y) (int x) = Inl IndexError"
  proof
    assume "Suc y = length lats"
    then have "int y + 1 = int (length lats)" by simp
    then have "rect_mid lats (int y + 1) (int y) = Inl IndexError"
      by (simp add: rect_mid_def bind_err_def coord_at_end)
    with lat1 lon1 show ?thesis by (simp add: rect_model_def bind_err_def)
  next
    assume "Suc x = length lons"
    then have "int x + 1 = int (length lons)" by simp
    then have lon2: "rect_mid lons (int x + 1) (int x) = Inl IndexError"
      by (simp add: rect_mid_def bind_err_def coord_at_end)
    show ?thesis
    proof (cases "rect_mid lats (int y + 1) (int y)")
      case (Inl e)
      with rect_mid_Inl [OF Inl] lat1 lon1 show ?thesis
        by (simp add: rect_model_def bind_err_def)
    next
      case (Inr v)
      with lat1 lon1 lon2 show ?thesis by (simp add: rect_model_def bind_err_def)
    qed
  qed
qed

theorem rect_model_edges_witness:
  "rect_model [52, 53, 54] [9, 10, 11] 1 1 = Inr ((52.5, 9.5), (53.5, 10.5))
   \<and> rect_model [52, 53, 54] [9, 10, 11] 0 1 = Inr ((53, 9.5), (52.5, 10.5))
   \<and> rect_model [52, 53, 54] [9, 10, 11] 2 1 = Inl IndexError"
proof -
  have b: "(0::nat) < length [52, 53, 54 :: real]" "(1::nat) < length [52, 53, 54 :: real]"
    "(2::nat) < length [52, 53, 54 :: real]" "(1::nat) < length [9, 10, 11 :: real]"
    by simp_all
  from rect_model_edges [OF b(2) b(4)] rect_model_edges [OF b(1) b(4)]
    rect_model_edges [OF b(3) b(4)]
  show ?thesis by simp
qed

end
